theory Spec2Isabelle
  imports Complex_Main
begin

section \<open>ImageWatch: the viewport, zoom and tiling engine of \<^verbatim>\<open>main.py\<close>\<close>

text \<open>
  The development embeds the core of \<^verbatim>\<open>GraphicsImageView\<close> and \<^verbatim>\<open>TileCache\<close>
  as HOL functions over explicit state. Python floats are read as real numbers and
  Python integers as \<^typ>\<open>int\<close>; a Python exception is a value of \<open>py_error\<close>.
\<close>

subsection \<open>Configuration constants\<close>

definition PIXEL_CELL :: int where
  "PIXEL_CELL = 64"

definition TILE_ORIG_PX :: int where
  "TILE_ORIG_PX = 16"

definition CACHE_MAX_TILES :: nat where
  "CACHE_MAX_TILES = 200"

datatype py_error = ZeroDivisionError

subsection \<open>TileCache\<close>

text \<open>
  \<^verbatim>\<open>TileCache\<close> keeps a dict \<open>cache\<close> and a deque \<open>order\<close> (oldest key first).
  The capacity \<open>max_tiles\<close> is a count; the only constructor call passes
  \<open>CACHE_MAX_TILES\<close>, so it is a natural number here.
\<close>

record ('k, 'p) tile_cache =
  max_tiles :: nat
  cache :: "'k \<rightharpoonup> 'p"
  order :: "'k list"

definition TileCache :: "nat \<Rightarrow> ('k, 'p) tile_cache" where
  "TileCache m = \<lparr>max_tiles = m, cache = Map.empty, order = []\<rparr>"

text \<open>
  \<^verbatim>\<open>get\<close>: on a hit the key moves to the most-recent end of \<open>order\<close>
  (\<^verbatim>\<open>deque.remove\<close> drops the first occurrence, a missing key is ignored) and the
  stored value is returned; on a miss the result is \<open>None\<close> and nothing changes.
\<close>

definition cache_get :: "('k, 'p) tile_cache \<Rightarrow> 'k \<Rightarrow> 'p option \<times> ('k, 'p) tile_cache" where
  "cache_get c key =
     (if cache c key \<noteq> None
      then (cache c key, c\<lparr>order := remove1 key (order c) @ [key]\<rparr>)
      else (None, c))"

text \<open>
  The eviction loop of \<^verbatim>\<open>put\<close>:
  \<^verbatim>\<open>while len(self.order) > self.max_tiles: old = self.order.popleft(); ...\<close>
\<close>

fun evict :: "nat \<Rightarrow> ('k \<rightharpoonup> 'p) \<Rightarrow> 'k list \<Rightarrow> ('k \<rightharpoonup> 'p) \<times> 'k list" where
  "evict m d [] = (d, [])"
| "evict m d (old # rest) =
     (if length (old # rest) > m then evict m (d(old := None)) rest
      else (d, old # rest))"

definition cache_put :: "('k, 'p) tile_cache \<Rightarrow> 'k \<Rightarrow> 'p \<Rightarrow> ('k, 'p) tile_cache" where
  "cache_put c key pixmap =
     (let ord1 = (if cache c key \<noteq> None then remove1 key (order c) else order c);
          (d, ord2) = evict (max_tiles c) ((cache c)(key \<mapsto> pixmap)) (ord1 @ [key])
      in c\<lparr>cache := d, order := ord2\<rparr>)"

definition cache_clear :: "('k, 'p) tile_cache \<Rightarrow> ('k, 'p) tile_cache" where
  "cache_clear c = c\<lparr>cache := Map.empty, order := []\<rparr>"

text \<open>Sequences of cache operations, as a client issues them.\<close>

datatype ('k, 'p) cache_op = Get 'k | Put 'k 'p | Clear

fun cache_step :: "('k, 'p) tile_cache \<Rightarrow> ('k, 'p) cache_op \<Rightarrow> ('k, 'p) tile_cache" where
  "cache_step c (Get k) = snd (cache_get c k)"
| "cache_step c (Put k p) = cache_put c k p"
| "cache_step c Clear = cache_clear c"

definition cache_run :: "('k, 'p) tile_cache \<Rightarrow> ('k, 'p) cache_op list \<Rightarrow> ('k, 'p) tile_cache" where
  "cache_run c ops = foldl cache_step c ops"

definition put_all :: "('k, 'p) tile_cache \<Rightarrow> ('k \<times> 'p) list \<Rightarrow> ('k, 'p) tile_cache" where
  "put_all c kps = foldl (\<lambda>c kp. cache_put c (fst kp) (snd kp)) c kps"

text \<open>The representation invariant: the deque lists the dict's keys once each, within capacity.\<close>

definition cache_wf :: "('k, 'p) tile_cache \<Rightarrow> bool" where
  "cache_wf c \<longleftrightarrow> dom (cache c) = set (order c) \<and> distinct (order c) \<and> length (order c) \<le> max_tiles c"

subsection \<open>Images and the Qt geometry the view relies on\<close>

text \<open>
  A decoded image is its size and a colour accessor (\<^verbatim>\<open>QColor(img.pixel(x, y))\<close> read as
  red, green, blue). \<^verbatim>\<open>QPixmap\<close> carries the same data; Qt calls a pixmap null when it
  has no pixels, that is when a dimension is not positive. Python's \<^verbatim>\<open>None\<close> is
  \<open>None\<close> of an option type.
\<close>

type_synonym rgb = "int \<times> int \<times> int"

record qimage =
  img_width :: int
  img_height :: int
  img_pixel :: "int \<Rightarrow> int \<Rightarrow> rgb"

record qpixmap =
  pix_width :: int
  pix_height :: int
  pix_pixel :: "int \<Rightarrow> int \<Rightarrow> rgb"

definition pixmap_isNull :: "qpixmap \<Rightarrow> bool" where
  "pixmap_isNull p \<longleftrightarrow> pix_width p \<le> 0 \<or> pix_height p \<le> 0"

definition image_isNull :: "qimage \<Rightarrow> bool" where
  "image_isNull i \<longleftrightarrow> img_width i \<le> 0 \<or> img_height i \<le> 0"

definition toImage :: "qpixmap \<Rightarrow> qimage" where
  "toImage p = \<lparr>img_width = pix_width p, img_height = pix_height p, img_pixel = pix_pixel p\<rparr>"

text \<open>
  The view only ever builds its \<^verbatim>\<open>QTransform\<close> from the identity by \<^verbatim>\<open>scale\<close> and
  \<^verbatim>\<open>translate\<close>, so a transform is its two scale factors and its translation; the
  other matrix entries keep their identity values. \<open>m11\<close> is what
  \<^verbatim>\<open>current_scale\<close> reads.
\<close>

record qtransform =
  m11 :: real
  m22 :: real
  t_dx :: real
  t_dy :: real

definition QTransform :: qtransform where
  "QTransform = \<lparr>m11 = 1, m22 = 1, t_dx = 0, t_dy = 0\<rparr>"

definition t_scale :: "qtransform \<Rightarrow> real \<Rightarrow> real \<Rightarrow> qtransform" where
  "t_scale t sx sy = t\<lparr>m11 := m11 t * sx, m22 := m22 t * sy\<rparr>"

definition t_translate :: "qtransform \<Rightarrow> real \<Rightarrow> real \<Rightarrow> qtransform" where
  "t_translate t x y = t\<lparr>t_dx := t_dx t + x * m11 t, t_dy := t_dy t + y * m22 t\<rparr>"

definition t_map :: "qtransform \<Rightarrow> real \<times> real \<Rightarrow> real \<times> real" where
  "t_map t p = (m11 t * fst p + t_dx t, m22 t * snd p + t_dy t)"

text \<open>\<^verbatim>\<open>QTransform.inverted\<close> returns the identity for a singular matrix.\<close>

definition t_inverted :: "qtransform \<Rightarrow> qtransform" where
  "t_inverted t =
     (if m11 t = 0 \<or> m22 t = 0 then QTransform
      else \<lparr>m11 = 1 / m11 t, m22 = 1 / m22 t, t_dx = - t_dx t / m11 t, t_dy = - t_dy t / m22 t\<rparr>)"

record rectf =
  r_left :: real
  r_top :: real
  r_right :: real
  r_bottom :: real

text \<open>Python's \<^verbatim>\<open>int(x)\<close> on a float truncates towards zero; \<^verbatim>\<open>QPointF.toPoint\<close> rounds.\<close>

definition py_int :: "real \<Rightarrow> int" where
  "py_int x = (if 0 \<le> x then \<lfloor>x\<rfloor> else \<lceil>x\<rceil>)"

definition qRound :: "real \<Rightarrow> int" where
  "qRound x = (if 0 \<le> x then py_int (x + 1 / 2) else py_int (x - 1 / 2))"

subsection \<open>Tiles\<close>

type_synonym tile_key = "int \<times> int"

text \<open>
  A rendered tile bitmap: its device size and, per source pixel in row-major order, the
  text lines drawn into the cell and whether the pen is black (luminance above 140)
  or white.
\<close>

record tile_pixmap =
  tp_width :: int
  tp_height :: int
  tp_cells :: "(int list \<times> bool) list"

text \<open>A \<^verbatim>\<open>QGraphicsPixmapItem\<close> showing a tile: bitmap, scene position, item scale, z value.\<close>

record tile_item =
  ti_pixmap :: tile_pixmap
  ti_pos :: "int \<times> int"
  ti_scale :: real
  ti_z :: int

subsection \<open>The view state\<close>

text \<open>
  The attributes of \<^verbatim>\<open>GraphicsImageView\<close> that the modelled methods read or write.
  \<open>tile_items\<close> is the dict \<^verbatim>\<open>_tile_items\<close> in insertion order. \<open>transform\<close> is the
  view matrix, \<open>scroll\<close> the horizontal and vertical scroll offsets that Qt adds to a
  viewport point before mapping it to the scene, \<open>scene_rect\<close> the explicit scene
  rectangle. \<open>pending_fit\<close> counts the \<^verbatim>\<open>QTimer.singleShot(0, fit_long_side)\<close> calls
  not yet run. Repaints, render hints, cursor shapes and signal wiring are not state here.
\<close>

record view =
  pixmap_item :: "qpixmap option"
  pixmap_visible :: bool
  orig_pixmap :: "qpixmap option"
  orig_qimage :: "qimage option"
  is_grayscale :: bool
  pixel_mode :: bool
  saved_transform :: "qtransform option"
  saved_scale :: "real option"
  scale_attr :: "int option"
  tile_cache :: "(tile_key, tile_pixmap) tile_cache"
  tile_items :: "(tile_key \<times> tile_item) list"
  transform :: qtransform
  scroll :: "int \<times> int"
  scene_rect :: rectf
  viewport_width :: int
  viewport_height :: int
  last_viewport_size :: "int \<times> int"
  auto_fit_mode :: bool
  smooth_enabled :: bool
  zooming :: bool
  zoom_end_timer_active :: bool
  visible_update_timer_active :: bool
  pending_fit :: nat

text \<open>
  What the program leaves to its platform is a parameter of the model, one value for each
  choice: the scroll offsets Qt settles on after the view matrix or the scene changed
  (\<open>relayout\<close>), after \<^verbatim>\<open>centerOn\<close> (\<open>center_on\<close>) and after a scroll bar's
  \<^verbatim>\<open>setValue\<close> (\<open>bar_value\<close>, which clamps to the bar's range), and the order in which
  Python iterates a set of tile keys (\<open>set_rank\<close>: the keys are visited by ascending
  rank, so every iteration order arises from some rank and every rank gives a
  permutation of the set).
\<close>

record platform =
  relayout :: "view \<Rightarrow> int \<times> int"
  center_on :: "view \<Rightarrow> real \<times> real \<Rightarrow> int \<times> int"
  bar_value :: "view \<Rightarrow> int \<times> int \<Rightarrow> int \<times> int"
  set_rank :: "tile_key \<Rightarrow> nat"

definition current_scale :: "view \<Rightarrow> real" where
  "current_scale s = m11 (transform s)"

definition mapToScene :: "view \<Rightarrow> int \<times> int \<Rightarrow> real \<times> real" where
  "mapToScene s p =
     t_map (t_inverted (transform s))
       (real_of_int (fst p + fst (scroll s)), real_of_int (snd p + snd (scroll s)))"

definition mapFromScene :: "view \<Rightarrow> real \<times> real \<Rightarrow> int \<times> int" where
  "mapFromScene s q =
     (let v = t_map (transform s) q
      in (qRound (fst v - real_of_int (fst (scroll s))), qRound (snd v - real_of_int (snd (scroll s)))))"

definition setTransform :: "platform \<Rightarrow> view \<Rightarrow> qtransform \<Rightarrow> view" where
  "setTransform pf s t = (let s1 = s\<lparr>transform := t\<rparr> in s1\<lparr>scroll := relayout pf s1\<rparr>)"

definition resetTransform :: "platform \<Rightarrow> view \<Rightarrow> view" where
  "resetTransform pf s = setTransform pf s QTransform"

definition centerOn :: "platform \<Rightarrow> view \<Rightarrow> real \<times> real \<Rightarrow> view" where
  "centerOn pf s q = s\<lparr>scroll := center_on pf s q\<rparr>"

text \<open>
  \<^verbatim>\<open>mapToScene(viewport().rect())\<close> followed by \<^verbatim>\<open>boundingRect()\<close>: Qt maps the four
  corners of the viewport rectangle; an invalid (empty) rectangle gives the empty polygon,
  for which \<^verbatim>\<open>_visible_tile_range\<close> takes the scene rectangle instead.
\<close>

definition viewport_scene_rect :: "view \<Rightarrow> rectf" where
  "viewport_scene_rect s =
     (if viewport_width s \<le> 0 \<or> viewport_height s \<le> 0 then scene_rect s
      else
        let a = mapToScene s (0, 0); b = mapToScene s (viewport_width s, viewport_height s)
        in \<lparr>r_left = min (fst a) (fst b), r_top = min (snd a) (snd b),
             r_right = max (fst a) (fst b), r_bottom = max (snd a) (snd b)\<rparr>)"

subsection \<open>Grayscale detection\<close>

text \<open>Python's \<^verbatim>\<open>range(start, stop, step)\<close> for a positive step.\<close>

function py_range :: "int \<Rightarrow> int \<Rightarrow> int \<Rightarrow> int list" where
  "py_range i stop step = (if 0 < step \<and> i < stop then i # py_range (i + step) stop step else [])"
  by pat_completeness auto
termination
  by (relation "measure (\<lambda>(i, stop, step). nat (stop - i))") auto

declare py_range.simps [simp del]

definition is_gray :: "rgb \<Rightarrow> bool" where
  "is_gray c = (case c of (r, g, b) \<Rightarrow> r = g \<and> g = b)"

text \<open>
  The two nested loops of \<^verbatim>\<open>_detect_grayscale\<close>; \<open>False\<close> is the \<^verbatim>\<open>break\<close> taken
  at the first sampled pixel whose channels differ.
\<close>

fun row_gray :: "qimage \<Rightarrow> int \<Rightarrow> int list \<Rightarrow> bool" where
  "row_gray img y [] = True"
| "row_gray img y (x # xs) = (if \<not> is_gray (img_pixel img x y) then False else row_gray img y xs)"

fun rows_gray :: "qimage \<Rightarrow> int list \<Rightarrow> int list \<Rightarrow> bool" where
  "rows_gray img xs [] = True"
| "rows_gray img xs (y # ys) = (if \<not> row_gray img y xs then False else rows_gray img xs ys)"

definition max_grid :: int where
  "max_grid = 100"

definition sample_xs :: "qimage \<Rightarrow> int list" where
  "sample_xs img = py_range 0 (img_width img) (max 1 (img_width img div max_grid))"

definition sample_ys :: "qimage \<Rightarrow> int list" where
  "sample_ys img = py_range 0 (img_height img) (max 1 (img_height img div max_grid))"

definition classify :: "qimage \<Rightarrow> bool" where
  "classify img = rows_gray img (sample_xs img) (sample_ys img)"

definition detect_grayscale :: "view \<Rightarrow> view" where
  "detect_grayscale s =
     (case orig_qimage s of
        None \<Rightarrow> s\<lparr>is_grayscale := True\<rparr>
      | Some img \<Rightarrow> s\<lparr>is_grayscale := classify img\<rparr>)"

subsection \<open>Loading an image\<close>

datatype load_report = LoadFailed

text \<open>
  \<^verbatim>\<open>load_image\<close> returns what it reports (the warning box, if any) and the new state.
  The deferred \<^verbatim>\<open>fit_long_side\<close> is recorded in \<open>pending_fit\<close>.
\<close>

definition load_image :: "platform \<Rightarrow> view \<Rightarrow> qpixmap option \<Rightarrow> load_report option \<times> view" where
  "load_image pf s qp =
     (case qp of
        None \<Rightarrow> (Some LoadFailed, s)
      | Some p \<Rightarrow>
          if pixmap_isNull p then (Some LoadFailed, s)
          else
            let s1 = s\<lparr>tile_cache := cache_clear (tile_cache s), tile_items := [],
                        orig_qimage := None, pixel_mode := False, is_grayscale := False,
                        orig_pixmap := Some p, pixmap_item := Some p, pixmap_visible := True,
                        scene_rect := \<lparr>r_left = 0, r_top = 0,
                                       r_right = real_of_int (pix_width p),
                                       r_bottom = real_of_int (pix_height p)\<rparr>\<rparr>;
                img = toImage p;
                s2 = (if \<not> image_isNull img then detect_grayscale (s1\<lparr>orig_qimage := Some img\<rparr>) else s1);
                s3 = resetTransform pf s2
            in (None, s3\<lparr>zooming := False, zoom_end_timer_active := False, auto_fit_mode := True,
                           pending_fit := Suc (pending_fit s3),
                           last_viewport_size := (viewport_width s3, viewport_height s3)\<rparr>))"

subsection \<open>Visible tiles\<close>

definition visible_tile_range :: "view \<Rightarrow> int \<Rightarrow> int \<times> int \<times> int \<times> int" where
  "visible_tile_range s margin_tiles =
     (case orig_qimage s of
        None \<Rightarrow> (0, - 1, 0, - 1)
      | Some img \<Rightarrow>
          let scene = viewport_scene_rect s;
              iw = img_width img; ih = img_height img;
              left = max 0 \<lfloor>r_left scene\<rfloor>;
              top = max 0 \<lfloor>r_top scene\<rfloor>;
              right = min (iw - 1) \<lceil>r_right scene\<rceil>;
              bottom = min (ih - 1) \<lceil>r_bottom scene\<rceil>;
              tw = TILE_ORIG_PX; th = TILE_ORIG_PX;
              tx0 = max 0 (left div tw - margin_tiles);
              ty0 = max 0 (top div th - margin_tiles);
              tx1 = min ((iw - 1) div tw) (right div tw + margin_tiles);
              ty1 = min ((ih - 1) div th) (bottom div th + margin_tiles)
          in (tx0, tx1, ty0, ty1))"

text \<open>The annotation of one source pixel inside a tile: its text lines and the pen colour.\<close>

definition tile_cell :: "bool \<Rightarrow> rgb \<Rightarrow> int list \<times> bool" where
  "tile_cell gray c =
     (case c of (r, g, b) \<Rightarrow>
        ((if gray then [r] else [r, g, b]),
         (299 / 1000) * real_of_int r + (587 / 1000) * real_of_int g + (114 / 1000) * real_of_int b > 140))"

definition make_tile_pixmap :: "view \<Rightarrow> int \<Rightarrow> int \<Rightarrow> tile_pixmap option" where
  "make_tile_pixmap s tx ty =
     (case orig_qimage s of
        None \<Rightarrow> None
      | Some img \<Rightarrow>
          let iw = img_width img; ih = img_height img;
              tw = TILE_ORIG_PX; th = TILE_ORIG_PX;
              x0 = tx * tw; y0 = ty * th;
              w = min tw (iw - x0); h = min th (ih - y0)
          in if w \<le> 0 \<or> h \<le> 0 then None
             else
               let target_w = w * PIXEL_CELL; target_h = h * PIXEL_CELL
               in if target_w \<le> 0 \<or> target_h \<le> 0 then None
                  else Some \<lparr>tp_width = target_w, tp_height = target_h,
                         tp_cells = concat (map (\<lambda>yy. map (\<lambda>xx.
                             tile_cell (is_grayscale s) (img_pixel img (x0 + xx) (y0 + yy)))
                           (py_range 0 w 1)) (py_range 0 h 1))\<rparr>)"

definition has_tile :: "view \<Rightarrow> tile_key \<Rightarrow> bool" where
  "has_tile s k \<longleftrightarrow> k \<in> set (map fst (tile_items s))"

definition place_tile :: "view \<Rightarrow> tile_key \<Rightarrow> tile_pixmap \<Rightarrow> view" where
  "place_tile s k pix =
     s\<lparr>tile_items := tile_items s @
          [(k, \<lparr>ti_pixmap = pix, ti_pos = (fst k * TILE_ORIG_PX, snd k * TILE_ORIG_PX),
                ti_scale = 1 / real_of_int PIXEL_CELL, ti_z = 100\<rparr>)]\<rparr>"

text \<open>
  The second loop of \<^verbatim>\<open>_update_visible_tiles\<close> over the required keys; the result
  lists the keys for which an item was created, in order.
\<close>

fun add_tiles :: "tile_key list \<Rightarrow> view \<Rightarrow> tile_key list \<times> view" where
  "add_tiles [] s = ([], s)"
| "add_tiles (k # ks) s =
     (if has_tile s k then add_tiles ks s
      else
        case cache_get (tile_cache s) k of
          (Some pix, c) \<Rightarrow>
            (let (added, s') = add_tiles ks (place_tile (s\<lparr>tile_cache := c\<rparr>) k pix)
             in (k # added, s'))
        | (None, c) \<Rightarrow>
            (case make_tile_pixmap s (fst k) (snd k) of
               None \<Rightarrow> add_tiles ks s
             | Some pix \<Rightarrow>
                 (let (added, s') =
                        add_tiles ks (place_tile (s\<lparr>tile_cache := cache_put c k pix\<rparr>) k pix)
                  in (k # added, s'))))"

definition required_tiles :: "view \<Rightarrow> tile_key list" where
  "required_tiles s =
     (case visible_tile_range s 1 of (tx0, tx1, ty0, ty1) \<Rightarrow>
        concat (map (\<lambda>ty. map (\<lambda>tx. (tx, ty)) [tx0..tx1]) [ty0..ty1]))"

text \<open>
  \<^verbatim>\<open>_update_visible_tiles\<close> returns the keys it removed, the keys it added, and the
  new state.
\<close>

definition update_visible_tiles :: "platform \<Rightarrow> view \<Rightarrow> tile_key list \<times> tile_key list \<times> view" where
  "update_visible_tiles pf s =
     (if orig_qimage s = None \<or> \<not> pixel_mode s then ([], [], s)
      else
        let required = required_tiles s;
            to_remove = filter (\<lambda>k. k \<notin> set required) (map fst (tile_items s));
            s1 = s\<lparr>tile_items := filter (\<lambda>kv. fst kv \<notin> set to_remove) (tile_items s)\<rparr>;
            (added, s2) = add_tiles (sort_key (set_rank pf) required) s1
        in (to_remove, added, s2))"

subsection \<open>Pixel mode\<close>

definition viewport_center :: "view \<Rightarrow> int \<times> int" where
  "viewport_center s = (viewport_width s div 2, viewport_height s div 2)"

definition preserve_ref :: "platform \<Rightarrow> view \<Rightarrow> int \<times> int \<Rightarrow> real \<times> real \<Rightarrow> view" where
  "preserve_ref pf s viewport_pt old_scene_pt =
     (let new_vp = mapFromScene s old_scene_pt;
          dx_v = fst new_vp - fst viewport_pt;
          dy_v = snd new_vp - snd viewport_pt;
          center_vp = viewport_center s;
          desired_center_vp = (fst center_vp + dx_v, snd center_vp + dy_v);
          desired_center_scene = mapToScene s desired_center_vp
      in centerOn pf s desired_center_scene)"

definition enter_pixel_mode :: "platform \<Rightarrow> view \<Rightarrow> (int \<times> int) option \<Rightarrow> view" where
  "enter_pixel_mode pf s ref_viewport_point =
     (if orig_qimage s = None then s
      else if pixel_mode s then s
      else
        let ref = (case ref_viewport_point of None \<Rightarrow> viewport_center s | Some p \<Rightarrow> p);
            old_scene_pt = mapToScene s ref;
            s1 = s\<lparr>saved_transform := Some (transform s), saved_scale := Some (current_scale s)\<rparr>;
            t = t_scale QTransform (real_of_int PIXEL_CELL) (real_of_int PIXEL_CELL);
            s2 = (setTransform pf s1 t)\<lparr>scale_attr := Some PIXEL_CELL\<rparr>;
            s3 = preserve_ref pf s2 ref old_scene_pt;
            s4 = s3\<lparr>pixel_mode := True\<rparr>;
            s5 = snd (snd (update_visible_tiles pf s4))
        in if pixmap_item s5 \<noteq> None then s5\<lparr>pixmap_visible := False\<rparr> else s5)"

definition exit_pixel_mode :: "platform \<Rightarrow> view \<Rightarrow> (int \<times> int) option \<Rightarrow> view" where
  "exit_pixel_mode pf s ref_viewport_point =
     (if \<not> pixel_mode s then s
      else if orig_qimage s = None then s
      else
        let ref = (case ref_viewport_point of None \<Rightarrow> viewport_center s | Some p \<Rightarrow> p);
            old_scene_pt = mapToScene s ref;
            s1 = s\<lparr>visible_update_timer_active := False, tile_items := []\<rparr>;
            s2 = (case saved_transform s1 of
                    Some t \<Rightarrow> setTransform pf s1 t
                  | None \<Rightarrow> (let r = resetTransform pf s1 in r\<lparr>pending_fit := Suc (pending_fit r)\<rparr>));
            s3 = preserve_ref pf s2 ref old_scene_pt;
            s4 = (if pixmap_item s3 \<noteq> None then s3\<lparr>pixmap_visible := True\<rparr> else s3)
        in s4\<lparr>pixel_mode := False\<rparr>)"

subsection \<open>Wheel events\<close>

text \<open>
  A wheel event: \<^verbatim>\<open>angleDelta().y()\<close>, the keyboard modifiers read at the time, and the
  pointer position as a viewport point.
\<close>

record wheel_event =
  delta :: int
  ctrl :: bool
  shift :: bool
  position :: "int \<times> int"

definition MIN_SCALE :: real where
  "MIN_SCALE = 5 / 100"

definition max_scale :: real where
  "max_scale = 64"

definition smooth_threshold :: real where
  "smooth_threshold = 5 / 2"

definition wheel_factor :: "int \<Rightarrow> real" where
  "wheel_factor d = 1 + (15 / 10000) * real_of_int d"

definition wheel_new_scale :: "view \<Rightarrow> int \<Rightarrow> real" where
  "wheel_new_scale s d = max MIN_SCALE (min (current_scale s * wheel_factor d) max_scale)"

definition wheelEvent :: "platform \<Rightarrow> view \<Rightarrow> wheel_event \<Rightarrow> py_error + view" where
  "wheelEvent pf s ev =
     (if delta ev = 0 then Inr s
      else if ctrl ev then
        Inr (s\<lparr>scroll := bar_value pf s
               (fst (scroll s), snd (scroll s) + py_int (- real_of_int (delta ev) / 120 * 30))\<rparr>)
      else if shift ev then
        Inr (s\<lparr>scroll := bar_value pf s
               (fst (scroll s) + py_int (- real_of_int (delta ev) / 120 * 30), snd (scroll s))\<rparr>)
      else if pixmap_item s = None then Inr s
      else
        let ref_pt = position ev;
            old_scene_pt = mapToScene s ref_pt;
            new_scale = wheel_new_scale s (delta ev)
        in if current_scale s = 0 then Inl ZeroDivisionError
           else
             let factor_to_apply = new_scale / current_scale s
             in if pixel_mode s \<and> delta ev < 0 then Inr (exit_pixel_mode pf s (Some ref_pt))
                else
                  let s1 = setTransform pf s (t_scale (transform s) factor_to_apply factor_to_apply);
                      new_scene_pt = mapToScene s1 ref_pt;
                      dx = fst new_scene_pt - fst old_scene_pt;
                      dy = snd new_scene_pt - snd old_scene_pt;
                      s2 = setTransform pf s1 (t_translate (transform s1) dx dy);
                      s3 = s2\<lparr>zooming := True, zoom_end_timer_active := True\<rparr>;
                      s4 = (if new_scale > smooth_threshold \<and> smooth_enabled s3
                            then s3\<lparr>smooth_enabled := False\<rparr> else s3);
                      s5 = (if new_scale \<le> smooth_threshold \<and> \<not> smooth_enabled s4
                            then s4\<lparr>smooth_enabled := True\<rparr> else s4);
                      s6 = s5\<lparr>auto_fit_mode := False\<rparr>
                  in if new_scale \<ge> real_of_int (PIXEL_CELL - 1) \<and> delta ev > 0 \<and> orig_qimage s6 \<noteq> None
                     then Inr (enter_pixel_mode pf s6 (Some ref_pt))
                     else Inr s6)"

text \<open>A run of wheel events stops at the first exception.\<close>

fun wheel_run :: "platform \<Rightarrow> view \<Rightarrow> wheel_event list \<Rightarrow> py_error + view" where
  "wheel_run pf s [] = Inr s"
| "wheel_run pf s (ev # evs) =
     (case wheelEvent pf s ev of Inl e \<Rightarrow> Inl e | Inr s' \<Rightarrow> wheel_run pf s' evs)"

subsection \<open>Pixel probe\<close>

text \<open>The value carried by \<^verbatim>\<open>pixelInfoChanged\<close>: \<^verbatim>\<open>None\<close>, an int, or a triple.\<close>

datatype pixel_value = Absent | Intensity int | Triple int int int

definition emit_pixel_info_at_viewport_point :: "view \<Rightarrow> int \<times> int \<Rightarrow> int \<times> int \<times> pixel_value" where
  "emit_pixel_info_at_viewport_point s vp_point =
     (case orig_qimage s of
        None \<Rightarrow> (- 1, - 1, Absent)
      | Some img \<Rightarrow>
          let scene_pt = mapToScene s vp_point;
              x = \<lfloor>fst scene_pt\<rfloor>;
              y = \<lfloor>snd scene_pt\<rfloor>;
              iw = img_width img; ih = img_height img
          in if x < 0 \<or> y < 0 \<or> x \<ge> iw \<or> y \<ge> ih then (- 1, - 1, Absent)
             else
               case img_pixel img x y of (r, g, b) \<Rightarrow>
                 if is_grayscale s then (x, y, Intensity r) else (x, y, Triple r g b))"

subsection \<open>Construction, and sample values\<close>

text \<open>The state \<^verbatim>\<open>__init__\<close> establishes, for a viewport of the given size.\<close>

definition GraphicsImageView :: "int \<Rightarrow> int \<Rightarrow> view" where
  "GraphicsImageView vw vh =
     \<lparr>pixmap_item = None, pixmap_visible = False, orig_pixmap = None, orig_qimage = None,
      is_grayscale = False, pixel_mode = False, saved_transform = None, saved_scale = None,
      scale_attr = None, tile_cache = TileCache CACHE_MAX_TILES, tile_items = [],
      transform = QTransform, scroll = (0, 0),
      scene_rect = \<lparr>r_left = 0, r_top = 0, r_right = 0, r_bottom = 0\<rparr>,
      viewport_width = vw, viewport_height = vh, last_viewport_size = (vw, vh),
      auto_fit_mode = True, smooth_enabled = True, zooming = False,
      zoom_end_timer_active = False, visible_update_timer_active = False, pending_fit = 0\<rparr>"

text \<open>
  Sample inputs for the concrete checks below: a platform that keeps the scroll offsets
  at the origin and iterates tile keys in insertion order, a solid-colour pixmap, and
  the view after loading it into an 800 by 600 viewport.
\<close>

definition still_platform :: platform where
  "still_platform =
     \<lparr>relayout = (\<lambda>s. (0, 0)), center_on = (\<lambda>s q. (0, 0)), bar_value = (\<lambda>s v. (0, 0)),
      set_rank = (\<lambda>k. 0)\<rparr>"

definition solid_pixmap :: "int \<Rightarrow> int \<Rightarrow> rgb \<Rightarrow> qpixmap" where
  "solid_pixmap w h c = \<lparr>pix_width = w, pix_height = h, pix_pixel = (\<lambda>x y. c)\<rparr>"

definition loaded_view :: "qpixmap \<Rightarrow> view" where
  "loaded_view p = snd (load_image still_platform (GraphicsImageView 800 600) (Some p))"

section \<open>Properties\<close>

subsection \<open>TileCache: capacity and LRU eviction\<close>

lemma evict_eq:
  "evict m d xs = (d |` (- set (take (length xs - m) xs)), drop (length xs - m) xs)"
proof (induction xs arbitrary: d)
  case Nil
  show ?case by simp
next
  case (Cons x xs)
  show ?case
  proof (cases "length (x # xs) > m")
    case True
    then have step: "length (x # xs) - m = Suc (length xs - m)" by simp
    have eq: "(d(x := None)) |` (- set (take (length xs - m) xs))
          = d |` (- set (x # take (length xs - m) xs))"
      by (rule ext) (simp add: restrict_map_def)
    have "evict m d (x # xs) = evict m (d(x := None)) xs"
      using True by simp
    also have "\<dots> = ((d(x := None)) |` (- set (take (length xs - m) xs)), drop (length xs - m) xs)"
      by (rule Cons.IH)
    also have "\<dots> = (d |` (- set (x # take (length xs - m) xs)), drop (length xs - m) xs)"
      by (simp only: eq)
    also have "\<dots> = (d |` (- set (take (length (x # xs) - m) (x # xs))), drop (length (x # xs) - m) (x # xs))"
      by (simp only: step take_Suc_Cons drop_Suc_Cons)
    finally show ?thesis .
  next
    case False
    then show ?thesis by simp
  qed
qed

lemma cache_put_wf: 
  assumes "cache_wf c" shows "cache_wf (cache_put c k p)"
proof -
  define ord1 where "ord1 = (if cache c k \<noteq> None then remove1 k (order c) else order c) @ [k]"
  define n where "n = length ord1 - max_tiles c"
  have d1: "distinct ord1" and s1: "set ord1 = insert k (dom (cache c))"
    using assms by (auto simp: ord1_def cache_wf_def)
  have put: "cache_put c k p = c\<lparr>cache := ((cache c)(k \<mapsto> p)) |` (- set (take n ord1)), order := drop n ord1\<rparr>"
    by (simp add: cache_put_def evict_eq ord1_def n_def Let_def)
  have "set (take n ord1) \<inter> set (drop n ord1) = {}"
    using d1 by (simp add: set_take_disj_set_drop_if_distinct)
  moreover have "set (take n ord1) \<union> set (drop n ord1) = set ord1"
    by (metis append_take_drop_id set_append)
  ultimately have "dom (((cache c)(k \<mapsto> p)) |` (- set (take n ord1))) = set (drop n ord1)"
    using s1 by (auto simp: dom_restrict)
  moreover have "length (drop n ord1) \<le> max_tiles c" by (simp add: n_def)
  ultimately show ?thesis using d1 by (simp add: put cache_wf_def)
qed

lemma cache_get_wf:
  assumes "cache_wf c" shows "cache_wf (snd (cache_get c k))"
proof (cases "cache c k")
  case None
  with assms show ?thesis by (simp add: cache_get_def)
next
  case (Some v)
  then have "k \<in> set (order c)" using assms by (auto simp: cache_wf_def)
  then have "Suc (length (remove1 k (order c))) = length (order c)"
    by (simp add: length_remove1) (metis Suc_pred length_pos_if_in_set)
  with assms Some show ?thesis
    by (auto simp: cache_wf_def cache_get_def)
qed

lemma cache_clear_wf: "cache_wf (cache_clear c)"
  by (simp add: cache_wf_def cache_clear_def)

lemma TileCache_wf: "cache_wf (TileCache m)"
  by (simp add: cache_wf_def TileCache_def)

lemma cache_step_wf: "cache_wf c \<Longrightarrow> cache_wf (cache_step c op)"
  by (cases op) (simp_all add: cache_put_wf cache_get_wf cache_clear_wf)

lemma cache_step_max: "max_tiles (cache_step c op) = max_tiles c"
  by (cases op) (simp_all add: cache_put_def cache_get_def cache_clear_def Let_def split: prod.splits)

lemma cache_run_wf: "cache_wf c \<Longrightarrow> cache_wf (cache_run c ops) \<and> max_tiles (cache_run c ops) = max_tiles c"
  unfolding cache_run_def
  by (induction ops arbitrary: c) (simp_all add: cache_step_wf cache_step_max)

lemma cache_wf_card: "cache_wf c \<Longrightarrow> card (dom (cache c)) \<le> max_tiles c"
  by (simp add: cache_wf_def distinct_card)

lemma put_all_snoc: "put_all c (kps @ [kp]) = cache_put (put_all c kps) (fst kp) (snd kp)"
  by (simp add: put_all_def)

lemma drop_snoc_fresh:
  "drop (Suc (min n m) - m) (drop (n - m) ks @ [k]) = drop (Suc n - m) (ks @ [k])" if "n = length ks"
proof (cases "n < m")
  case True
  then show ?thesis by simp
next
  case False
  then have "Suc (min n m) - m = 1" by simp
  show ?thesis
  proof (cases "m = 0")
    case True
    with that show ?thesis by simp
  next
    case m: False
    with False that have "drop (n - m) ks \<noteq> []" by simp
    with False that m show ?thesis by (simp add: Suc_diff_le)
  qed
qed

lemma cache_put_fresh:
  assumes "cache c k = None"
  defines "cnt \<equiv> Suc (length (order c)) - max_tiles c"
  shows "order (cache_put c k p) = drop cnt (order c @ [k])"
    and "max_tiles (cache_put c k p) = max_tiles c"
    and "cache (cache_put c k p) x =
           (if x \<in> set (take cnt (order c @ [k])) then None else ((cache c)(k \<mapsto> p)) x)"
  using assms by (simp_all add: cache_put_def evict_eq Let_def restrict_map_def)

lemma put_all_fresh:
  assumes "distinct (map fst kps)"
  shows "order (put_all (TileCache m) kps) = drop (length kps - m) (map fst kps) \<and>
         max_tiles (put_all (TileCache m) kps) = m \<and>
         (\<forall>x. cache (put_all (TileCache m) kps) x =
              (if x \<in> set (drop (length kps - m) (map fst kps)) then map_of kps x else None))"
  using assms
proof (induction kps rule: rev_induct)
  case Nil
  show ?case by (simp add: put_all_def TileCache_def)
next
  case (snoc kp kps)
  define c1 where "c1 = put_all (TileCache m) kps"
  define ks where "ks = map fst kps"
  define n where "n = length kps"
  define k where "k = fst kp"
  define cnt where "cnt = Suc (length (order c1)) - max_tiles c1"
  from snoc have fresh: "k \<notin> set ks" and dist: "distinct ks" by (auto simp: ks_def k_def)
  from snoc have o1: "order c1 = drop (n - m) ks" and m1: "max_tiles c1 = m"
    and c1: "\<And>x. cache c1 x = (if x \<in> set (drop (n - m) ks) then map_of kps x else None)"
    by (simp_all add: c1_def ks_def n_def)
  have none: "cache c1 k = None"
    using fresh c1 by (auto dest: in_set_dropD)
  have nlen: "n = length ks" by (simp add: ks_def n_def)
  have cnt: "cnt = Suc (min n m) - m"
    by (simp add: cnt_def o1 m1 nlen)
  have ord: "drop cnt (order c1 @ [k]) = drop (Suc n - m) (ks @ [k])"
    unfolding cnt o1 by (rule drop_snoc_fresh [OF nlen])
  have dist1: "distinct (order c1 @ [k])"
    using dist fresh by (auto simp: o1 dest: in_set_dropD)
  have disj: "set (take cnt (order c1 @ [k])) \<inter> set (drop cnt (order c1 @ [k])) = {}"
    using dist1 by (rule set_take_disj_set_drop_if_distinct) simp
  have un: "set (take cnt (order c1 @ [k])) \<union> set (drop cnt (order c1 @ [k])) = set (order c1) \<union> {k}"
    by (metis append_take_drop_id set_append list.simps(15) empty_set Un_insert_right sup_bot.right_neutral)
  have mp: "map_of (kps @ [kp]) x = (if x = k then Some (snd kp) else map_of kps x)" for x
  proof (cases "x = k")
    case True
    then have "map_of kps x = None" using fresh by (simp add: ks_def map_of_eq_None_iff)
    with True show ?thesis by (simp add: map_add_def k_def)
  next
    case False
    then show ?thesis by (auto simp: map_add_def k_def split: option.splits)
  qed
  have step: "put_all (TileCache m) (kps @ [kp]) = cache_put c1 k (snd kp)"
    by (simp add: put_all_snoc c1_def k_def)
  have A: "order (put_all (TileCache m) (kps @ [kp])) = drop (length (kps @ [kp]) - m) (map fst (kps @ [kp]))"
    unfolding step cache_put_fresh(1) [OF none] using ord by (simp add: cnt_def ks_def n_def k_def)
  have B: "max_tiles (put_all (TileCache m) (kps @ [kp])) = m"
    unfolding step cache_put_fresh(2) [OF none] by (rule m1)
  have C: "cache (put_all (TileCache m) (kps @ [kp])) x =
              (if x \<in> set (drop (length (kps @ [kp]) - m) (map fst (kps @ [kp]))) then map_of (kps @ [kp]) x else None)" for x
  proof -
    define T where "T = set (take cnt (order c1 @ [k]))"
    define D where "D = set (drop cnt (order c1 @ [k]))"
    define M where "M = map_of (kps @ [kp]) x"
    have TD: "T \<inter> D = {}" "T \<union> D = set (order c1) \<union> {k}"
      using disj un by (simp_all add: T_def D_def)
    have M: "M = (if x = k then Some (snd kp) else map_of kps x)"
      unfolding M_def by (rule mp)
    have c1x: "cache c1 x = (if x \<in> set (order c1) then map_of kps x else None)"
      using c1 [of x] by (simp only: o1)
    have "cache (cache_put c1 k (snd kp)) x = (if x \<in> T then None else ((cache c1)(k \<mapsto> snd kp)) x)"
      unfolding cnt_def T_def by (rule cache_put_fresh(3) [OF none])
    also have "\<dots> = (if x \<in> D then M else None)"
      using TD c1x M by (cases "x = k") auto
    also have "D = set (drop (length (kps @ [kp]) - m) (map fst (kps @ [kp])))"
      unfolding D_def using ord by (simp add: ks_def n_def k_def)
    finally show ?thesis unfolding step M_def .
  qed
  from A B C show ?case by blast
qed


text \<open>
  Claim C3. Starting from the empty cache built with \<open>CACHE_MAX_TILES\<close>, no sequence of
  get, put and clear operations leaves more than 200 entries in the dict. Inserting 201
  pairs with distinct keys evicts exactly the first key: it is absent afterwards, every
  later key still maps to its bitmap, and 200 entries remain.
\<close>

theorem tile_cache_capacity_lru:
  "card (dom (cache (cache_run (TileCache CACHE_MAX_TILES) ops))) \<le> 200 \<and>
   (distinct (map fst kps) \<and> length kps = 201 \<longrightarrow>
      cache (put_all (TileCache CACHE_MAX_TILES) kps) (fst (hd kps)) = None \<and>
      (\<forall>kp \<in> set (tl kps). cache (put_all (TileCache CACHE_MAX_TILES) kps) (fst kp) = Some (snd kp)) \<and>
      card (dom (cache (put_all (TileCache CACHE_MAX_TILES) kps))) = 200)"
proof (intro conjI impI)
  have "cache_wf (cache_run (TileCache CACHE_MAX_TILES) ops)"
    and "max_tiles (cache_run (TileCache CACHE_MAX_TILES) ops) = CACHE_MAX_TILES"
    using cache_run_wf [OF TileCache_wf, of CACHE_MAX_TILES ops] by (simp_all add: TileCache_def)
  then show "card (dom (cache (cache_run (TileCache CACHE_MAX_TILES) ops))) \<le> 200"
    using cache_wf_card by (fastforce simp: CACHE_MAX_TILES_def)
next
  assume a: "distinct (map fst kps) \<and> length kps = 201"
  define c where "c = put_all (TileCache CACHE_MAX_TILES) kps"
  from a obtain kp0 rest where kps: "kps = kp0 # rest" by (cases kps) auto
  from a have dk: "distinct (map fst kps)" and len: "length kps - CACHE_MAX_TILES = 1"
    by (simp_all add: CACHE_MAX_TILES_def)
  have dr: "drop 1 (map fst kps) = map fst rest" by (simp add: kps)
  from put_all_fresh [OF dk, of CACHE_MAX_TILES]
  have ord: "order c = map fst rest"
    and cx: "\<And>x. cache c x = (if x \<in> set (map fst rest) then map_of kps x else None)"
    unfolding len dr c_def by blast+
  from dk have nin: "fst kp0 \<notin> set (map fst rest)" by (simp add: kps)
  show "cache c (fst (hd kps)) = None"
    using nin by (simp add: cx kps)
  show "\<forall>kp \<in> set (tl kps). cache c (fst kp) = Some (snd kp)"
  proof
    fix kp assume "kp \<in> set (tl kps)"
    then have "kp \<in> set rest" by (simp add: kps)
    then have "fst kp \<in> set (map fst rest)" and "(fst kp, snd kp) \<in> set kps" by (auto simp: kps)
    with dk show "cache c (fst kp) = Some (snd kp)" by (simp add: cx)
  qed
  have "dom (cache c) = set (map fst rest)"
  proof -
    have "map_of kps x \<noteq> None" if "x \<in> set (map fst rest)" for x
    proof -
      from that have "x \<in> fst ` set kps" by (auto simp: kps)
      then show ?thesis unfolding map_of_eq_None_iff by blast
    qed
    then show ?thesis by (auto simp: cx dom_def)
  qed
  moreover have "distinct (map fst rest)" using dk by (simp add: kps)
  moreover have "length rest = 200" using a by (simp add: kps)
  ultimately show "card (dom (cache c)) = 200"
    using distinct_card [of "map fst rest"] by simp
qed

theorem tile_cache_capacity_lru_witness:
  "card (dom (cache (cache_run (TileCache CACHE_MAX_TILES)
       [Put (0::int, 0::int) (7::nat), Get (0, 0), Put (1, 0) 8, Clear, Put (2, 2) 9]))) \<le> 200 \<and>
   distinct (map fst (map (\<lambda>i. ((int i, 0::int), i)) [0..<201])) \<and>
   length (map (\<lambda>i. ((int i, 0::int), i)) [0..<201]) = 201 \<and>
   cache (put_all (TileCache CACHE_MAX_TILES) (map (\<lambda>i. ((int i, 0::int), i)) [0..<201])) (0, 0) = None \<and>
   cache (put_all (TileCache CACHE_MAX_TILES) (map (\<lambda>i. ((int i, 0::int), i)) [0..<201])) (1, 0) = Some 1 \<and>
   cache (put_all (TileCache CACHE_MAX_TILES) (map (\<lambda>i. ((int i, 0::int), i)) [0..<201])) (200, 0) = Some 200"
proof -
  let ?K = "map (\<lambda>i. ((int i, 0::int), i)) [0..<201]"
  let ?ops = "[Put (0::int, 0::int) (7::nat), Get (0, 0), Put (1, 0) 8, Clear, Put (2, 2) 9]"
  let ?c = "put_all (TileCache CACHE_MAX_TILES) ?K"
  have d: "distinct (map fst ?K)" by (simp add: distinct_map inj_on_def comp_def)
  have l: "length ?K = 201" by simp
  have hd: "fst (hd ?K) = (0, 0)" by (simp add: hd_map upt_rec)
  have tl: "tl ?K = map (\<lambda>i. ((int i, 0::int), i)) [1..<201]"
    by (simp add: map_tl [symmetric] del: upt_Suc)
  have m1: "((1, 0), 1) \<in> set (tl ?K)" unfolding tl by (auto simp: image_iff)
  have m2: "((200, 0), 200) \<in> set (tl ?K)" unfolding tl by (auto simp: image_iff)
  note T = tile_cache_capacity_lru [of ?ops ?K]
  have A: "card (dom (cache (cache_run (TileCache CACHE_MAX_TILES) ?ops))) \<le> 200"
    by (rule T [THEN conjunct1])
  have B: "cache ?c (fst (hd ?K)) = None \<and>
      (\<forall>kp \<in> set (tl ?K). cache ?c (fst kp) = Some (snd kp)) \<and> card (dom (cache ?c)) = 200"
    by (rule T [THEN conjunct2, THEN mp]) (rule conjI [OF d l])
  have B1: "cache ?c (0, 0) = None"
    using B [THEN conjunct1] by (simp only: hd)
  have B2: "cache ?c (1, 0) = Some 1"
    using B [THEN conjunct2, THEN conjunct1, THEN bspec, OF m1] by (simp only: fst_conv snd_conv)
  have B3: "cache ?c (200, 0) = Some 200"
    using B [THEN conjunct2, THEN conjunct1, THEN bspec, OF m2] by (simp only: fst_conv snd_conv)
  show ?thesis
    by (intro conjI A d l B1 B2 B3)
qed

end
